theory Spec2Isabelle
  imports Complex_Main "HOL-Library.Word"
begin

section \<open>AR Colorize: the per-frame pipeline of \<^verbatim>\<open>ar_colorize.py\<close>\<close>

text \<open>
  The development follows the class \<^verbatim>\<open>ARColorize\<close>: the colour state and its setter
  (\<^verbatim>\<open>hex_to_bgr\<close>, \<^verbatim>\<open>set_color\<close>), the segmenter (\<^verbatim>\<open>detect_wall\<close>), the compositor
  (\<^verbatim>\<open>apply_color_overlay\<close>) and the frame transform (\<^verbatim>\<open>process_frame\<close>).
  Python exceptions are values of \<open>py_error\<close>; a call that raises returns \<open>Inl\<close>.
\<close>

datatype py_error = ValueError | TypeError | IndexError | OverflowError | CvError

subsection \<open>Colour state and hexadecimal parsing\<close>

text \<open>
  A Python string is a list of characters; a character of the model is a code point below
  256. \<open>py_int16\<close> is Python's \<^verbatim>\<open>int(s, 16)\<close> on such strings: surrounding whitespace is
  skipped, one sign and one \<^verbatim>\<open>0x\<close> prefix are accepted, digits may be separated by single
  underscores, and anything else raises \<^verbatim>\<open>ValueError\<close>. \<open>slice s i j\<close> is \<^verbatim>\<open>s[i:j]\<close> for
  \<open>i \<le> j\<close>, which never raises. \<open>lstrip_hash\<close> is \<^verbatim>\<open>s.lstrip('#')\<close>: it removes every
  leading \<^verbatim>\<open>#\<close>. \<open>set_color\<close> returns the outcome together with the object after the call;
  the assignment to \<^verbatim>\<open>selected_color\<close> happens only when \<^verbatim>\<open>hex_to_bgr\<close> has returned.
  The \<^verbatim>\<open>print\<close> of \<^verbatim>\<open>set_color\<close> writes to the terminal only and is left out.
\<close>

type_synonym color = "int \<times> int \<times> int"

record ar_colorize =
  selected_color :: color
  cap :: "nat option"
  running :: bool

definition init :: ar_colorize where
  "init = \<lparr>selected_color = (255, 255, 255), cap = None, running = False\<rparr>"

definition hexval :: "char \<Rightarrow> nat option" where
  "hexval c =
     (let n = (of_char c :: nat) in
      if 48 \<le> n \<and> n \<le> 57 then Some (n - 48)
      else if 97 \<le> n \<and> n \<le> 102 then Some (n - 87)
      else if 65 \<le> n \<and> n \<le> 70 then Some (n - 55)
      else None)"

definition is_space :: "char \<Rightarrow> bool" where
  "is_space c = ((of_char c :: nat) \<in> {9, 10, 11, 12, 13, 32, 133, 160})"

fun digits16 :: "bool \<Rightarrow> nat \<Rightarrow> string \<Rightarrow> (nat \<times> string) option" where
  "digits16 pu acc [] = (if pu then None else Some (acc, []))"
| "digits16 pu acc (c # cs) =
     (if c = CHR ''_'' then (if pu then None else digits16 True acc cs)
      else (case hexval c of
              Some d \<Rightarrow> digits16 False (16 * acc + d) cs
            | None \<Rightarrow> if pu then None else Some (acc, c # cs)))"

definition skip_prefix :: "string \<Rightarrow> string" where
  "skip_prefix s =
     (case s of
        z # x # r \<Rightarrow>
          if z = CHR ''0'' \<and> (x = CHR ''x'' \<or> x = CHR ''X'')
          then (case r of u # r' \<Rightarrow> if u = CHR ''_'' then r' else r | [] \<Rightarrow> r)
          else s
      | _ \<Rightarrow> s)"

definition py_int16 :: "string \<Rightarrow> py_error + int" where
  "py_int16 s =
     (let s1 = dropWhile is_space s;
          neg = (case s1 of c # _ \<Rightarrow> c = CHR ''-'' | [] \<Rightarrow> False);
          s2 = (case s1 of c # r \<Rightarrow> if c = CHR ''+'' \<or> c = CHR ''-'' then r else s1 | [] \<Rightarrow> s1);
          s3 = skip_prefix s2
      in case s3 of
           [] \<Rightarrow> Inl ValueError
         | c # _ \<Rightarrow>
             if hexval c = None then Inl ValueError
             else (case digits16 False 0 s3 of
                     None \<Rightarrow> Inl ValueError
                   | Some (v, rest) \<Rightarrow>
                       if list_all is_space rest
                       then Inr (if neg then - int v else int v)
                       else Inl ValueError))"

definition lstrip_hash :: "string \<Rightarrow> string" where
  "lstrip_hash s = dropWhile (\<lambda>c. c = CHR ''#'') s"

definition slice :: "string \<Rightarrow> nat \<Rightarrow> nat \<Rightarrow> string" where
  "slice s i j = take (j - i) (drop i s)"

definition hex_to_bgr :: "string \<Rightarrow> py_error + color" where
  "hex_to_bgr hex_color =
     (let h = lstrip_hash hex_color in
      case py_int16 (slice h 0 2) of
        Inl e \<Rightarrow> Inl e
      | Inr r \<Rightarrow>
          (case py_int16 (slice h 2 4) of
             Inl e \<Rightarrow> Inl e
           | Inr g \<Rightarrow>
               (case py_int16 (slice h 4 6) of
                  Inl e \<Rightarrow> Inl e
                | Inr b \<Rightarrow> Inr (b, g, r))))"

definition set_color :: "ar_colorize \<Rightarrow> string \<Rightarrow> (py_error + unit) \<times> ar_colorize" where
  "set_color self hex_color =
     (case hex_to_bgr hex_color of
        Inl e \<Rightarrow> (Inl e, self)
      | Inr c \<Rightarrow> (Inr (), self\<lparr>selected_color := c\<rparr>))"

text \<open>
  The strings the specification calls valid: exactly six hexadecimal digits, after one
  optional leading \<^verbatim>\<open>#\<close>.
\<close>

definition is_hex :: "char \<Rightarrow> bool" where
  "is_hex c = (hexval c \<noteq> None)"

definition hex6 :: "string \<Rightarrow> bool" where
  "hex6 s = (length s = 6 \<and> list_all is_hex s)"

definition valid_hex :: "string \<Rightarrow> bool" where
  "valid_hex h = (hex6 h \<or> (case h of c # body \<Rightarrow> c = CHR ''#'' \<and> hex6 body | [] \<Rightarrow> False))"

definition to_upper :: "char \<Rightarrow> char" where
  "to_upper c =
     (let n = (of_char c :: nat) in if 97 \<le> n \<and> n \<le> 122 then char_of (n - 32) else c)"

text \<open>
  Modelled from the spec: the conversion of a channel triple back to a hex string
  (\<^verbatim>\<open>toHex\<close>) is named by the specification and is no function of the repository.
  \<open>bgr_to_hex\<close> writes a triple in the frame's channel order (blue, green, red) as
  \<^verbatim>\<open>#RRGGBB\<close>, two upper-case hexadecimal digits per channel.
\<close>

definition hex_char :: "nat \<Rightarrow> char" where
  "hex_char d = char_of (if d < 10 then 48 + d else 55 + d)"

definition byte_hex :: "int \<Rightarrow> string" where
  "byte_hex v = [hex_char (nat v div 16), hex_char (nat v mod 16)]"

definition bgr_to_hex :: "color \<Rightarrow> string" where
  "bgr_to_hex c = (case c of (b, g, r) \<Rightarrow> CHR ''#'' # byte_hex r @ byte_hex g @ byte_hex b)"

subsection \<open>Images and the OpenCV calls of the segmenter\<close>

text \<open>
  A frame is a NumPy array of shape \<open>(height, width, 3)\<close> with 8-bit channels in the
  order blue, green, red; a mask or a grey image has shape \<open>(height, width)\<close>. Both are
  lists of rows. NumPy arrays are rectangular and the frames of a camera are not empty:
  \<open>valid_image\<close> says so, and the theorems assume it of their input.

  OpenCV is a library the repository calls. Four of its functions are parameters of
  the model, collected in the record \<open>cv2\<close>: the grey conversion of one pixel
  (\<^verbatim>\<open>cv2.cvtColor(frame, cv2.COLOR_BGR2GRAY)\<close> works pixel by pixel), \<^verbatim>\<open>cv2.Canny\<close>,
  \<^verbatim>\<open>cv2.findContours\<close> and \<^verbatim>\<open>cv2.drawContours\<close>. What the theorems need of them is
  stated as a hypothesis: \<open>canny_contract\<close> says that the edge map of \<^verbatim>\<open>cv2.Canny\<close> has
  the size of its input and holds only 0 and 255, as OpenCV documents it.

  The other calls are simple enough to be defined: \<^verbatim>\<open>cv2.threshold\<close> with
  \<^verbatim>\<open>THRESH_BINARY\<close>; \<^verbatim>\<open>cv2.dilate\<close> and \<^verbatim>\<open>cv2.erode\<close> with a square kernel of ones
  (\<^verbatim>\<open>np.ones((5, 5))\<close> is the kernel size 5), anchored at its centre, where pixels
  outside the image do not count (OpenCV's default border for morphology);
  \<^verbatim>\<open>cv2.morphologyEx\<close> with \<^verbatim>\<open>MORPH_CLOSE\<close> (dilate, then erode) and \<^verbatim>\<open>MORPH_OPEN\<close>
  (erode, then dilate); \<^verbatim>\<open>cv2.bitwise_not\<close>; and \<^verbatim>\<open>cv2.bitwise_and\<close>, which raises on
  arrays of different sizes. \<^verbatim>\<open>cv2.cvtColor\<close> raises on an empty image. The HSV
  conversion of \<^verbatim>\<open>detect_wall\<close> is never read and is left out.

  \<open>edges_dilated\<close> is the value of the variable of that name in \<^verbatim>\<open>detect_wall\<close>, and
  \<open>cleaned\<close> the final value of \<^verbatim>\<open>brightness_mask\<close>.
\<close>

unbundle bit_operations_syntax

type_synonym u8 = "8 word"
type_synonym pixel = "u8 \<times> u8 \<times> u8"
type_synonym frame = "pixel list list"
type_synonym gray = "u8 list list"
type_synonym contour = "(nat \<times> nat) list"

definition height :: "'a list list \<Rightarrow> nat" where
  "height img = length img"

definition width :: "'a list list \<Rightarrow> nat" where
  "width img = (case img of [] \<Rightarrow> 0 | r # _ \<Rightarrow> length r)"

definition rect :: "'a list list \<Rightarrow> bool" where
  "rect img = list_all (\<lambda>r. length r = width img) img"

definition valid_image :: "'a list list \<Rightarrow> bool" where
  "valid_image img = (0 < height img \<and> 0 < width img \<and> rect img)"

definition binary :: "8 word list list \<Rightarrow> bool" where
  "binary img = list_all (list_all (\<lambda>v. v = 0 \<or> v = 255)) img"

definition shape :: "'a list list \<Rightarrow> nat list" where
  "shape img = map length img"

record cv2 =
  cvtColor_gray :: "pixel \<Rightarrow> u8"
  Canny :: "gray \<Rightarrow> nat \<Rightarrow> nat \<Rightarrow> gray"
  findContours :: "gray \<Rightarrow> contour list"
  drawContours :: "frame \<Rightarrow> contour list \<Rightarrow> int \<Rightarrow> pixel \<Rightarrow> nat \<Rightarrow> frame"

definition threshold_binary :: "gray \<Rightarrow> u8 \<Rightarrow> u8 \<Rightarrow> gray" where
  "threshold_binary src thresh maxval = map (map (\<lambda>v. if thresh < v then maxval else 0)) src"

definition window :: "nat \<Rightarrow> nat \<Rightarrow> nat \<Rightarrow> nat list" where
  "window ksize n i = [i - ksize div 2 ..< min n (i + ksize div 2 + 1)]"

definition neighbourhood :: "gray \<Rightarrow> nat \<Rightarrow> nat \<Rightarrow> nat \<Rightarrow> u8 list" where
  "neighbourhood img ksize y x =
     concat (map (\<lambda>yy. map (\<lambda>xx. img ! yy ! xx) (window ksize (width img) x))
               (window ksize (height img) y))"

definition dilate :: "gray \<Rightarrow> nat \<Rightarrow> gray" where
  "dilate img ksize =
     map (\<lambda>y. map (\<lambda>x. fold max (neighbourhood img ksize y x) 0) [0..<width img])
       [0..<height img]"

definition erode :: "gray \<Rightarrow> nat \<Rightarrow> gray" where
  "erode img ksize =
     map (\<lambda>y. map (\<lambda>x. fold min (neighbourhood img ksize y x) 255) [0..<width img])
       [0..<height img]"

definition morph_close :: "gray \<Rightarrow> nat \<Rightarrow> gray" where
  "morph_close img ksize = erode (dilate img ksize) ksize"

definition morph_open :: "gray \<Rightarrow> nat \<Rightarrow> gray" where
  "morph_open img ksize = dilate (erode img ksize) ksize"

definition bitwise_not :: "gray \<Rightarrow> gray" where
  "bitwise_not src = map (map (\<lambda>v. NOT v)) src"

definition bitwise_and :: "gray \<Rightarrow> gray \<Rightarrow> py_error + gray" where
  "bitwise_and a b =
     (if shape a = shape b then Inr (map2 (map2 (\<lambda>v w. v AND w)) a b) else Inl CvError)"

definition to_gray :: "cv2 \<Rightarrow> frame \<Rightarrow> gray" where
  "to_gray cv frame = map (map (cvtColor_gray cv)) frame"

definition edges_dilated :: "cv2 \<Rightarrow> frame \<Rightarrow> gray" where
  "edges_dilated cv frame = dilate (Canny cv (to_gray cv frame) 50 150) 5"

definition detect_wall :: "cv2 \<Rightarrow> frame \<Rightarrow> py_error + gray" where
  "detect_wall cv frame =
     (if height frame = 0 \<or> width frame = 0 then Inl CvError
      else
        let gray = to_gray cv frame;
            brightness_mask = threshold_binary gray 100 255;
            kernel = 5;
            brightness_mask = morph_close brightness_mask kernel;
            brightness_mask = morph_open brightness_mask kernel
        in bitwise_and brightness_mask (bitwise_not (edges_dilated cv frame)))"

definition canny_contract :: "cv2 \<Rightarrow> bool" where
  "canny_contract cv =
     (\<forall>g lo hi. valid_image g \<longrightarrow>
        rect (Canny cv g lo hi) \<and> height (Canny cv g lo hi) = height g \<and>
        width (Canny cv g lo hi) = width g \<and> binary (Canny cv g lo hi))"

definition cleaned :: "cv2 \<Rightarrow> frame \<Rightarrow> gray" where
  "cleaned cv frame = morph_open (morph_close (threshold_binary (to_gray cv frame) 100 255) 5) 5"

text \<open>
  An instance of the library parameters, for the concrete examples: a grey conversion by
  the usual weights, an edge detector that marks a pixel whose grey value differs from its
  left neighbour's by more than the high threshold, no contours and no drawing.
\<close>

definition gradient_edges :: "gray \<Rightarrow> nat \<Rightarrow> nat \<Rightarrow> gray" where
  "gradient_edges g lo hi =
     map (\<lambda>row. map2 (\<lambda>a b. if hi < nat \<bar>int (unat a) - int (unat b)\<bar> then 255 else 0)
                   row (hd row # row)) g"

definition luma :: "pixel \<Rightarrow> u8" where
  "luma p = (case p of (b, g, r) \<Rightarrow>
     word_of_nat ((114 * unat b + 587 * unat g + 299 * unat r + 500) div 1000))"

definition plain_cv :: cv2 where
  "plain_cv = \<lparr>cvtColor_gray = luma, Canny = gradient_edges,
                findContours = (\<lambda>m. []), drawContours = (\<lambda>img cs idx col th. img)\<rparr>"

definition demo_frame :: frame where
  "demo_frame = [[(200,200,200), (200,200,200), (10,10,10)],
                 [(200,200,200), (200,200,200), (10,10,10)]]"

definition tiny :: frame where
  "tiny = [[(200,200,200), (10,10,10)]]"

definition bright_dot :: frame where
  "bright_dot = [[(200,200,200)]]"

definition wall_strip :: frame where
  "wall_strip = [[(200,200,200), (200,200,200), (200,200,200), (0,0,0)]]"

definition dark_dot :: frame where
  "dark_dot = [[(0,0,0)]]"

subsection \<open>Buffers, NumPy indexing and the compositor\<close>

text \<open>
  NumPy arrays are mutable objects, and the compositor is asked not to write into the
  frame it is given. So frames live in a store of buffers: \<open>cells\<close> maps an address to the
  array held there and \<open>next_free\<close> is the first unused address. \<open>alloc\<close> is what
  \<^verbatim>\<open>np.zeros_like\<close> and \<^verbatim>\<open>frame.copy()\<close> do, a new buffer with the given contents, and
  \<open>write_buf\<close> is an assignment into an existing buffer. A function that takes a frame
  takes its address and returns the address of its result next to the store after the
  call; the store is returned when the call raises, too. A mask is only read and is passed
  by value. \<open>store0 f\<close> is a store that holds the one frame \<open>f\<close>, at address 0.
\<close>

record store =
  cells :: "nat \<Rightarrow> frame"
  next_free :: nat

definition alloc :: "store \<Rightarrow> frame \<Rightarrow> store \<times> nat" where
  "alloc s v = (s\<lparr>cells := (cells s)(next_free s := v), next_free := Suc (next_free s)\<rparr>, next_free s)"

definition write_buf :: "store \<Rightarrow> nat \<Rightarrow> frame \<Rightarrow> store" where
  "write_buf s a v = s\<lparr>cells := (cells s)(a := v)\<rparr>"

definition store0 :: "frame \<Rightarrow> store" where
  "store0 f = \<lparr>cells = (\<lambda>a. if a = 0 then f else []), next_free = 1\<rparr>"

text \<open>
  \<open>gt0 msk\<close> is \<^verbatim>\<open>mask > 0\<close>. For a boolean array \<open>bm\<close> over the first two axes of
  \<open>arr\<close>, \<open>bool_select arr bm\<close> is \<^verbatim>\<open>arr[bm]\<close>, the pixels at the true positions in
  row-major order; \<open>bool_fill arr bm c\<close> is \<^verbatim>\<open>arr[bm] = c\<close> for a tuple \<open>c\<close> of Python
  integers; and \<open>bool_assign arr bm v\<close> is \<^verbatim>\<open>arr[bm] = v\<close> for \<open>v\<close> the value of a call of
  OpenCV, an array of pixels or \<^verbatim>\<open>None\<close>. NumPy raises \<^verbatim>\<open>IndexError\<close> when the boolean
  index has not the height and width of the array, \<^verbatim>\<open>OverflowError\<close> when a Python
  integer does not fit an 8-bit channel (NumPy 2; older versions wrap such a value), \<^verbatim>\<open>TypeError\<close> when the value assigned to an 8-bit
  array is \<^verbatim>\<open>None\<close>, and \<^verbatim>\<open>ValueError\<close> when the number of values differs from the number
  of true positions. \<open>count_true\<close> is the number of true positions.
\<close>

definition gt0 :: "gray \<Rightarrow> bool list list" where
  "gt0 msk = map (map (\<lambda>v. 0 < v)) msk"

definition zeros_like :: "frame \<Rightarrow> frame" where
  "zeros_like a = map (map (\<lambda>p. (0, 0, 0))) a"

definition to_u8 :: "int \<Rightarrow> py_error + u8" where
  "to_u8 v = (if 0 \<le> v \<and> v \<le> 255 then Inr (word_of_int v) else Inl OverflowError)"

definition pixel_of :: "color \<Rightarrow> py_error + pixel" where
  "pixel_of c =
     (case c of (c0, c1, c2) \<Rightarrow>
        (case to_u8 c0 of Inl e \<Rightarrow> Inl e | Inr b \<Rightarrow>
        (case to_u8 c1 of Inl e \<Rightarrow> Inl e | Inr g \<Rightarrow>
        (case to_u8 c2 of Inl e \<Rightarrow> Inl e | Inr r \<Rightarrow> Inr (b, g, r)))))"

definition bool_fill :: "frame \<Rightarrow> bool list list \<Rightarrow> color \<Rightarrow> py_error + frame" where
  "bool_fill arr bm c =
     (if shape arr = shape bm
      then (case pixel_of c of
              Inl e \<Rightarrow> Inl e
            | Inr p \<Rightarrow> Inr (map2 (map2 (\<lambda>q b. if b then p else q)) arr bm))
      else Inl IndexError)"

fun select_row :: "'a list \<Rightarrow> bool list \<Rightarrow> 'a list" where
  "select_row (p # ps) (b # bs) = (if b then p # select_row ps bs else select_row ps bs)"
| "select_row ps bs = []"

definition bool_select :: "'a list list \<Rightarrow> bool list list \<Rightarrow> py_error + 'a list" where
  "bool_select arr bm =
     (if shape arr = shape bm then Inr (concat (map2 select_row arr bm)) else Inl IndexError)"

fun assign_row :: "'a list \<Rightarrow> bool list \<Rightarrow> 'a list \<Rightarrow> 'a list \<times> 'a list" where
  "assign_row (p # ps) (b # bs) vs =
     (if b
      then (case vs of
              v # vs' \<Rightarrow> (case assign_row ps bs vs' of (r, rest) \<Rightarrow> (v # r, rest))
            | [] \<Rightarrow> (case assign_row ps bs [] of (r, rest) \<Rightarrow> (p # r, rest)))
      else (case assign_row ps bs vs of (r, rest) \<Rightarrow> (p # r, rest)))"
| "assign_row ps bs vs = (ps, vs)"

fun assign_rows :: "'a list list \<Rightarrow> bool list list \<Rightarrow> 'a list \<Rightarrow> 'a list list" where
  "assign_rows (r # rs) (b # bs) vs =
     (case assign_row r b vs of (r', rest) \<Rightarrow> r' # assign_rows rs bs rest)"
| "assign_rows rs bs vs = rs"

definition count_true :: "bool list list \<Rightarrow> nat" where
  "count_true bm = length (filter id (concat bm))"

definition bool_assign ::
  "'a list list \<Rightarrow> bool list list \<Rightarrow> 'a list option \<Rightarrow> py_error + 'a list list" where
  "bool_assign arr bm val =
     (if shape arr = shape bm
      then (case val of
              None \<Rightarrow> Inl TypeError
            | Some vs \<Rightarrow>
                if length vs = count_true bm then Inr (assign_rows arr bm vs) else Inl ValueError)
      else Inl IndexError)"

text \<open>
  \<^verbatim>\<open>cv2.addWeighted(src1, alpha, src2, beta, gamma)\<close> is, element by element,
  \<^verbatim>\<open>saturate(src1 * alpha + src2 * beta + gamma)\<close>: the sum is rounded to the nearest
  integer, ties to the even one (\<open>cvRound\<close>), and clipped to 0..255 (\<open>saturate_u8\<close>).
  The weights are Python floats; they are real numbers here and the arithmetic is exact,
  so the rounding error of the floating-point evaluation is left out. The two arrays must
  have the same size. For arrays without an element the result matrix of OpenCV has no
  data, and the Python binding returns \<^verbatim>\<open>None\<close> for such a matrix: \<open>addWeighted\<close> returns
  \<open>Inr None\<close> then.
\<close>

definition cvRound :: "real \<Rightarrow> int" where
  "cvRound x =
     (let f = \<lfloor>x\<rfloor> in
      if x - of_int f < 1 / 2 then f
      else if 1 / 2 < x - of_int f then f + 1
      else if even f then f else f + 1)"

definition saturate_u8 :: "int \<Rightarrow> u8" where
  "saturate_u8 v = word_of_int (max 0 (min 255 v))"

definition weighted :: "u8 \<Rightarrow> real \<Rightarrow> u8 \<Rightarrow> real \<Rightarrow> real \<Rightarrow> u8" where
  "weighted a alpha b beta gamma =
     saturate_u8 (cvRound (real (unat a) * alpha + real (unat b) * beta + gamma))"

definition weighted_px :: "pixel \<Rightarrow> real \<Rightarrow> pixel \<Rightarrow> real \<Rightarrow> real \<Rightarrow> pixel" where
  "weighted_px p alpha q beta gamma =
     (case p of (p0, p1, p2) \<Rightarrow> case q of (q0, q1, q2) \<Rightarrow>
        (weighted p0 alpha q0 beta gamma, weighted p1 alpha q1 beta gamma,
         weighted p2 alpha q2 beta gamma))"

definition addWeighted ::
  "pixel list \<Rightarrow> real \<Rightarrow> pixel list \<Rightarrow> real \<Rightarrow> real \<Rightarrow> py_error + pixel list option" where
  "addWeighted src1 alpha src2 beta gamma =
     (if length src1 = length src2
      then (if src1 = [] then Inr None
            else Inr (Some (map2 (\<lambda>p q. weighted_px p alpha q beta gamma) src1 src2)))
      else Inl CvError)"

text \<open>
  \<open>apply_color_overlay\<close> and \<open>process_frame\<close> follow the methods of these names statement
  by statement. In the assignment to \<^verbatim>\<open>result[mask > 0]\<close> Python evaluates the call of
  \<^verbatim>\<open>cv2.addWeighted\<close> first. \<^verbatim>\<open>process_frame\<close> calls the compositor with its default
  \<open>alpha\<close>, 0.7, and \<^verbatim>\<open>cv2.drawContours\<close> draws into the buffer of \<^verbatim>\<open>result\<close>.
\<close>

definition apply_color_overlay ::
  "store \<Rightarrow> nat \<Rightarrow> gray \<Rightarrow> color \<Rightarrow> real \<Rightarrow> (py_error + nat) \<times> store" where
  "apply_color_overlay s frame msk color alpha =
     (case alloc s (zeros_like (cells s frame)) of (s1, overlay) \<Rightarrow>
      case bool_fill (cells s1 overlay) (gt0 msk) color of
        Inl e \<Rightarrow> (Inl e, s1)
      | Inr ov \<Rightarrow>
     (case alloc (write_buf s1 overlay ov) (cells s1 frame) of (s2, result) \<Rightarrow>
      case bool_select (cells s2 frame) (gt0 msk) of
        Inl e \<Rightarrow> (Inl e, s2)
      | Inr src1 \<Rightarrow>
     (case bool_select (cells s2 overlay) (gt0 msk) of
        Inl e \<Rightarrow> (Inl e, s2)
      | Inr src2 \<Rightarrow>
     (case addWeighted src1 (1 - alpha) src2 alpha 0 of
        Inl e \<Rightarrow> (Inl e, s2)
      | Inr v \<Rightarrow>
     (case bool_assign (cells s2 result) (gt0 msk) v of
        Inl e \<Rightarrow> (Inl e, s2)
      | Inr r \<Rightarrow> (Inr result, write_buf s2 result r))))))"

definition process_frame ::
  "cv2 \<Rightarrow> ar_colorize \<Rightarrow> store \<Rightarrow> nat \<Rightarrow> (py_error + nat) \<times> store" where
  "process_frame cv self s frame =
     (case detect_wall cv (cells s frame) of
        Inl e \<Rightarrow> (Inl e, s)
      | Inr wall_mask \<Rightarrow>
     (case apply_color_overlay s frame wall_mask (selected_color self) (7 / 10) of
        (Inl e, s1) \<Rightarrow> (Inl e, s1)
      | (Inr result, s1) \<Rightarrow>
          let contours = findContours cv wall_mask
          in (Inr result,
              write_buf s1 result
                (drawContours cv (cells s1 result) contours (- 1) (0, 255, 0) 2))))"

text \<open>
  The contents of the two buffers a call of \<open>apply_color_overlay\<close> allocates, when it
  returns: \<open>filled\<close> is the overlay and \<open>blended\<close> is the result.
\<close>

definition blended :: "frame \<Rightarrow> gray \<Rightarrow> pixel \<Rightarrow> real \<Rightarrow> frame" where
  "blended f msk p alpha =
     map2 (map2 (\<lambda>q b. if b then weighted_px q (1 - alpha) p alpha 0 else q)) f (gt0 msk)"

definition filled :: "frame \<Rightarrow> gray \<Rightarrow> pixel \<Rightarrow> frame" where
  "filled f msk p = map2 (map2 (\<lambda>q b. if b then p else q)) (zeros_like f) (gt0 msk)"

text \<open>
  The words of the specification: \<open>valid_color\<close> says that each channel of a colour lies
  in 0..255; \<open>blend_ok res orig color alpha\<close> says that each channel of the pixel \<open>res\<close> is
  within 1 of \<open>round ((1 - alpha) * original + alpha * color)\<close>.
\<close>

definition valid_color :: "color \<Rightarrow> bool" where
  "valid_color c =
     (case c of (c0, c1, c2) \<Rightarrow>
        0 \<le> c0 \<and> c0 \<le> 255 \<and> 0 \<le> c1 \<and> c1 \<le> 255 \<and> 0 \<le> c2 \<and> c2 \<le> 255)"

definition within1 :: "u8 \<Rightarrow> real \<Rightarrow> bool" where
  "within1 v t = (\<bar>int (unat v) - round t\<bar> \<le> 1)"

definition blend_ok :: "pixel \<Rightarrow> pixel \<Rightarrow> color \<Rightarrow> real \<Rightarrow> bool" where
  "blend_ok res orig color alpha =
     (case res of (r0, r1, r2) \<Rightarrow> case orig of (o0, o1, o2) \<Rightarrow> case color of (c0, c1, c2) \<Rightarrow>
        within1 r0 ((1 - alpha) * real (unat o0) + alpha * real_of_int c0) \<and>
        within1 r1 ((1 - alpha) * real (unat o1) + alpha * real_of_int c1) \<and>
        within1 r2 ((1 - alpha) * real (unat o2) + alpha * real_of_int c2))"

text \<open>
  Frames for the concrete examples: the all-black frame of four rows and four columns, a
  row of two pixels, and a single grey pixel.
\<close>

definition black4 :: frame where
  "black4 = replicate 4 (replicate 4 (0, 0, 0))"

definition two_pixels :: frame where
  "two_pixels = [[(100, 50, 0), (7, 8, 9)]]"

definition grey_dot :: frame where
  "grey_dot = [[(100, 100, 100)]]"

section \<open>Properties of the colour state\<close>

lemma hexval_char:
  assumes "hexval c = Some d"
  shows "d < 16" "hex_char d = to_upper c" "\<not> is_space c" "c \<noteq> CHR ''_''" "c \<noteq> CHR ''+''"
    "c \<noteq> CHR ''-''" "c \<noteq> CHR ''x''" "c \<noteq> CHR ''X''" "c \<noteq> CHR ''#''"
  using assms
  by (auto simp: hexval_def hex_char_def to_upper_def is_space_def Let_def split: if_splits)

lemma py_int16_two:
  assumes "hexval a = Some x" "hexval b = Some y"
  shows "py_int16 [a, b] = Inr (int (16 * x + y))"
proof -
  note A = hexval_char(3-8)[OF assms(1)]
  note B = hexval_char(3-8)[OF assms(2)]
  show ?thesis
    by (simp add: py_int16_def skip_prefix_def assms A B)
qed


lemma hex6_cases:
  assumes "hex6 s"
  obtains a b c d e f where "s = [a, b, c, d, e, f]"
    "is_hex a" "is_hex b" "is_hex c" "is_hex d" "is_hex e" "is_hex f"
proof -
  from assms have len: "length s = 6" and all: "list_all is_hex s"
    by (simp_all add: hex6_def)
  from len obtain a b c d e f where s: "s = [a, b, c, d, e, f]"
    by (auto simp: length_Suc_conv eval_nat_numeral)
  with all that show thesis by simp
qed

lemma lstrip_hash_hex6: "hex6 s \<Longrightarrow> lstrip_hash s = s"
proof (erule hex6_cases)
  fix a b c d e f
  assume s: "s = [a, b, c, d, e, f]" and a: "is_hex a"
  from a have "a \<noteq> CHR ''#''"
    by (auto simp: is_hex_def dest: hexval_char(9))
  with s show ?thesis by (simp add: lstrip_hash_def)
qed

lemma lstrip_hash_valid:
  assumes "valid_hex h"
  shows "hex6 (lstrip_hash h)"
proof (cases "hex6 h")
  case True
  then show ?thesis by (simp add: lstrip_hash_hex6)
next
  case False
  with assms obtain body where h: "h = CHR ''#'' # body" and b: "hex6 body"
    by (auto simp: valid_hex_def split: list.splits)
  have "lstrip_hash h = lstrip_hash body"
    by (simp add: h lstrip_hash_def)
  with b show ?thesis by (simp add: lstrip_hash_hex6)
qed

lemma byte_hex_two:
  "x < 16 \<Longrightarrow> y < 16 \<Longrightarrow> byte_hex (int (16 * x + y)) = [hex_char x, hex_char y]"
  by (simp add: byte_hex_def nat_add_distrib nat_mult_distrib)

lemma hex_to_bgr_hex6:
  assumes "hex6 (lstrip_hash h)"
  shows "\<exists>c. hex_to_bgr h = Inr c \<and> bgr_to_hex c = CHR ''#'' # map to_upper (lstrip_hash h)"
proof -
  from assms obtain a b c d e f where s: "lstrip_hash h = [a, b, c, d, e, f]"
    and hx: "is_hex a" "is_hex b" "is_hex c" "is_hex d" "is_hex e" "is_hex f"
    by (rule hex6_cases)
  from hx obtain va vb vc vd ve vf where v:
    "hexval a = Some va" "hexval b = Some vb" "hexval c = Some vc"
    "hexval d = Some vd" "hexval e = Some ve" "hexval f = Some vf"
    by (auto simp: is_hex_def)
  have r: "hex_to_bgr h = Inr (int (16 * ve + vf), int (16 * vc + vd), int (16 * va + vb))"
    by (simp add: hex_to_bgr_def s slice_def py_int16_two[OF v(1,2)] py_int16_two[OF v(3,4)]
        py_int16_two[OF v(5,6)])
  have "bgr_to_hex (int (16 * ve + vf), int (16 * vc + vd), int (16 * va + vb))
        = CHR ''#'' # map to_upper [a, b, c, d, e, f]"
    by (simp only: bgr_to_hex_def prod.case byte_hex_two hexval_char(1,2)[OF v(1)]
        hexval_char(1,2)[OF v(2)] hexval_char(1,2)[OF v(3)] hexval_char(1,2)[OF v(4)]
        hexval_char(1,2)[OF v(5)] hexval_char(1,2)[OF v(6)] list.map append.simps)
  with r s show ?thesis by simp
qed





lemma lstrip_hash_nohash: "lstrip_hash s = c # cs \<Longrightarrow> c \<noteq> CHR ''#''"
  unfolding lstrip_hash_def by (induction s) (auto split: if_splits)

lemma lstrip_hash_Nil: "lstrip_hash [] = []"
  by (simp add: lstrip_hash_def)

lemma lstrip_hash_idem_take: "lstrip_hash (take n (lstrip_hash s)) = take n (lstrip_hash s)"
proof (cases "lstrip_hash s")
  case Nil
  then show ?thesis by (simp add: lstrip_hash_Nil)
next
  case (Cons c cs)
  then have "c \<noteq> CHR ''#''" by (rule lstrip_hash_nohash)
  with Cons show ?thesis by (cases n) (simp_all add: lstrip_hash_def)
qed

lemma slice_take: "j \<le> n \<Longrightarrow> slice (take n s) i j = slice s i j"
  by (simp add: slice_def drop_take min_def)

lemma hex_to_bgr_first_six: "hex_to_bgr s = hex_to_bgr (take 6 (lstrip_hash s))"
proof -
  have a: "lstrip_hash (take 6 (lstrip_hash s)) = take 6 (lstrip_hash s)"
    by (rule lstrip_hash_idem_take)
  have b: "slice (take 6 (lstrip_hash s)) 0 2 = slice (lstrip_hash s) 0 2"
    "slice (take 6 (lstrip_hash s)) 2 4 = slice (lstrip_hash s) 2 4"
    "slice (take 6 (lstrip_hash s)) 4 6 = slice (lstrip_hash s) 4 6"
    by (simp_all add: slice_take)
  show ?thesis
    unfolding hex_to_bgr_def Let_def a b ..
qed

text \<open>
  Claim C5. For every valid colour string \<open>h\<close> (six hexadecimal digits in either case,
  with or without one leading \<^verbatim>\<open>#\<close>), \<open>hex_to_bgr\<close> returns a triple, and writing that
  triple back as \<^verbatim>\<open>#RRGGBB\<close> gives the digits of \<open>h\<close> again, in upper case: the
  round trip loses nothing, and it is the identity up to letter case and the leading
  \<^verbatim>\<open>#\<close>.
\<close>

theorem hex_round_trip:
  "valid_hex h \<Longrightarrow>
     \<exists>c. hex_to_bgr h = Inr c \<and> bgr_to_hex c = CHR ''#'' # map to_upper (lstrip_hash h)"
  by (rule hex_to_bgr_hex6) (rule lstrip_hash_valid)

theorem hex_round_trip_witness:
  "valid_hex ''#ff7f50'' \<and> hex_to_bgr ''#ff7f50'' = Inr (80, 127, 255)
     \<and> bgr_to_hex (80, 127, 255) = ''#FF7F50''"
proof -
  have v: "valid_hex ''#ff7f50''"
    by (simp add: valid_hex_def hex6_def is_hex_def hexval_def)
  from hex_round_trip[OF v] obtain c where
    c: "hex_to_bgr ''#ff7f50'' = Inr c"
    and "bgr_to_hex c = CHR ''#'' # map to_upper (lstrip_hash ''#ff7f50'')"
    by blast
  moreover have "CHR ''#'' # map to_upper (lstrip_hash ''#ff7f50'') = ''#FF7F50''"
    by code_simp
  ultimately have u: "bgr_to_hex c = ''#FF7F50''"
    by simp
  have e: "hex_to_bgr ''#ff7f50'' = Inr (80, 127, 255)"
    by (simp add: hex_to_bgr_def lstrip_hash_def slice_def py_int16_def skip_prefix_def
        hexval_def is_space_def)
  with c have "c = (80, 127, 255)" by simp
  with v e u show ?thesis by simp
qed




text \<open>
  Claim C10. \<open>hex_to_bgr\<close> depends only on the first six characters that remain after
  every leading \<^verbatim>\<open>#\<close> is removed. So there are arguments that are not six hexadecimal
  digits and that \<open>set_color\<close> accepts: \<^verbatim>\<open>##12ab34zz\<close> has two leading \<^verbatim>\<open>#\<close> and
  trailing garbage, and the call sets the colour parsed from \<^verbatim>\<open>12ab34\<close>.
\<close>

theorem set_color_first_six:
  "hex_to_bgr s = hex_to_bgr (take 6 (lstrip_hash s)) \<and>
   \<not> valid_hex ''##12ab34zz'' \<and>
   set_color init ''##12ab34zz'' = (Inr (), init\<lparr>selected_color := (52, 171, 18)\<rparr>)"
proof -
  have "\<not> valid_hex ''##12ab34zz''"
    by (simp add: valid_hex_def hex6_def)
  moreover have
    "set_color init ''##12ab34zz'' = (Inr (), init\<lparr>selected_color := (52, 171, 18)\<rparr>)"
    by (simp add: set_color_def hex_to_bgr_def lstrip_hash_def slice_def
        py_int16_def skip_prefix_def hexval_def is_space_def)
  ultimately show ?thesis
    using hex_to_bgr_first_six[of s] by simp
qed

section \<open>Properties of the segmenter\<close>

lemma height_map [simp]: "height (map f img) = height img"
  by (simp add: height_def)

lemma width_map_map [simp]: "width (map (map f) img) = width img"
  by (cases img) (simp_all add: width_def)

lemma rect_map_map: "rect img \<Longrightarrow> rect (map (map f) img)"
  by (simp add: rect_def list_all_iff)

lemma map_length_const:
  "list_all (\<lambda>r. length r = w) img \<Longrightarrow> map length img = replicate (length img) w"
  by (induction img) simp_all

lemma shape_rect: "rect img \<Longrightarrow> shape img = replicate (height img) (width img)"
  by (simp add: rect_def shape_def height_def map_length_const)

lemma rect_nth: "rect img \<Longrightarrow> y < height img \<Longrightarrow> length (img ! y) = width img"
  by (simp add: rect_def height_def list_all_length)

lemma binary_nth:
  "binary img \<Longrightarrow> y < length img \<Longrightarrow> x < length (img ! y) \<Longrightarrow> img ! y ! x = 0 \<or> img ! y ! x = 255"
  by (simp add: binary_def list_all_length)

lemma binaryI:
  "(\<And>y x. y < length img \<Longrightarrow> x < length (img ! y) \<Longrightarrow> img ! y ! x = 0 \<or> img ! y ! x = 255)
    \<Longrightarrow> binary img"
  by (simp add: binary_def list_all_length)

lemma fold_max_binary:
  "list_all (\<lambda>v. v = 0 \<or> v = 255) vs \<Longrightarrow> a = 0 \<or> a = 255 \<Longrightarrow>
     fold max vs (a :: 8 word) = 0 \<or> fold max vs a = 255"
  by (induction vs arbitrary: a) (auto simp: max_def)

lemma fold_min_binary:
  "list_all (\<lambda>v. v = 0 \<or> v = 255) vs \<Longrightarrow> a = 0 \<or> a = 255 \<Longrightarrow>
     fold min vs (a :: 8 word) = 0 \<or> fold min vs a = 255"
  by (induction vs arbitrary: a) (auto simp: min_def)

lemma window_bound: "i \<in> set (window k n j) \<Longrightarrow> i < n"
  by (simp add: window_def)

lemma neighbourhood_binary:
  assumes "rect img" "binary img"
  shows "list_all (\<lambda>v. v = 0 \<or> v = 255) (neighbourhood img k y x)"
proof -
  have "img ! yy ! xx = 0 \<or> img ! yy ! xx = 255"
    if "yy \<in> set (window k (height img) y)" "xx \<in> set (window k (width img) x)" for yy xx
  proof -
    from that have yy: "yy < height img" and xx: "xx < width img"
      by (auto dest: window_bound)
    from rect_nth[OF assms(1) yy] xx have "xx < length (img ! yy)" by simp
    with binary_nth[OF assms(2)] yy show ?thesis by (simp add: height_def)
  qed
  then show ?thesis
    by (auto simp: neighbourhood_def list_all_iff)
qed

lemma height_dilate [simp]: "height (dilate img k) = height img"
  by (simp add: dilate_def height_def)

lemma width_dilate [simp]: "width (dilate img k) = width img"
proof (cases img)
  case Nil
  then show ?thesis by (simp add: dilate_def width_def height_def)
next
  case (Cons r rs)
  then have "[0..<height img] = 0 # [1..<height img]"
    by (simp add: height_def upt_rec)
  then show ?thesis by (simp add: dilate_def width_def)
qed

lemma rect_dilate: "rect (dilate img k)"
  unfolding rect_def width_dilate by (simp add: dilate_def list_all_iff)

lemma binary_dilate: "rect img \<Longrightarrow> binary img \<Longrightarrow> binary (dilate img k)"
  by (rule binaryI) (simp add: dilate_def height_def fold_max_binary neighbourhood_binary)

lemma height_erode [simp]: "height (erode img k) = height img"
  by (simp add: erode_def height_def)

lemma width_erode [simp]: "width (erode img k) = width img"
proof (cases img)
  case Nil
  then show ?thesis by (simp add: erode_def width_def height_def)
next
  case (Cons r rs)
  then have "[0..<height img] = 0 # [1..<height img]"
    by (simp add: height_def upt_rec)
  then show ?thesis by (simp add: erode_def width_def)
qed

lemma rect_erode: "rect (erode img k)"
  unfolding rect_def width_erode by (simp add: erode_def list_all_iff)

lemma binary_erode: "rect img \<Longrightarrow> binary img \<Longrightarrow> binary (erode img k)"
  by (rule binaryI) (simp add: erode_def height_def fold_min_binary neighbourhood_binary)

lemma binary_threshold: "binary (threshold_binary g 100 255)"
  by (auto simp: binary_def threshold_binary_def list_all_iff)

lemma not_255: "NOT (255 :: 8 word) = 0" "NOT (0 :: 8 word) = 255"
  by simp_all

lemma not_binary: "v = 0 \<or> v = 255 \<Longrightarrow> NOT v = 0 \<or> NOT v = (255 :: 8 word)"
  by (auto simp: not_255)

lemma binary_bitwise_not:
  assumes "binary img"
  shows "binary (bitwise_not img)"
proof (rule binaryI)
  fix y x
  assume "y < length (bitwise_not img)" "x < length (bitwise_not img ! y)"
  then have y: "y < length img" and x: "x < length (img ! y)"
    by (simp_all add: bitwise_not_def)
  then have "bitwise_not img ! y ! x = NOT (img ! y ! x)"
    by (simp add: bitwise_not_def)
  with not_binary[OF binary_nth[OF assms y x]]
  show "bitwise_not img ! y ! x = 0 \<or> bitwise_not img ! y ! x = 255"
    by simp
qed

lemma valid_image_to_gray: "valid_image frame \<Longrightarrow> valid_image (to_gray cv frame)"
  by (simp add: valid_image_def to_gray_def rect_map_map)

lemma to_gray_dims [simp]:
  "height (to_gray cv frame) = height frame" "width (to_gray cv frame) = width frame"
  by (simp_all add: to_gray_def)

lemma threshold_dims [simp]:
  "height (threshold_binary g t m) = height g" "width (threshold_binary g t m) = width g"
  by (simp_all add: threshold_binary_def)

lemma rect_threshold: "rect g \<Longrightarrow> rect (threshold_binary g t m)"
  by (simp add: threshold_binary_def rect_map_map)

lemma bitwise_not_dims [simp]:
  "height (bitwise_not g) = height g" "width (bitwise_not g) = width g"
  by (simp_all add: bitwise_not_def)

lemma rect_bitwise_not: "rect g \<Longrightarrow> rect (bitwise_not g)"
  by (simp add: bitwise_not_def rect_map_map)

lemma morph_dims [simp]:
  "height (morph_close g k) = height g" "width (morph_close g k) = width g"
  "height (morph_open g k) = height g" "width (morph_open g k) = width g"
  by (simp_all add: morph_close_def morph_open_def)

lemma rect_morph: "rect (morph_close g k)" "rect (morph_open g k)"
  by (simp_all add: morph_close_def morph_open_def rect_erode rect_dilate)

lemma binary_morph:
  "rect g \<Longrightarrow> binary g \<Longrightarrow> binary (morph_close g k)"
  "rect g \<Longrightarrow> binary g \<Longrightarrow> binary (morph_open g k)"
  by (simp_all add: morph_close_def morph_open_def binary_erode binary_dilate rect_erode rect_dilate)

lemma canny_props:
  assumes "canny_contract cv" "valid_image frame"
  shows "rect (edges_dilated cv frame)" "height (edges_dilated cv frame) = height frame"
    "width (edges_dilated cv frame) = width frame" "binary (edges_dilated cv frame)"
proof -
  from assms(2) have v: "valid_image (to_gray cv frame)" by (rule valid_image_to_gray)
  with assms(1) have c: "rect (Canny cv (to_gray cv frame) 50 150)"
    "height (Canny cv (to_gray cv frame) 50 150) = height frame"
    "width (Canny cv (to_gray cv frame) 50 150) = width frame"
    "binary (Canny cv (to_gray cv frame) 50 150)"
    by (simp_all add: canny_contract_def)
  show "rect (edges_dilated cv frame)" by (simp add: edges_dilated_def rect_dilate)
  show "height (edges_dilated cv frame) = height frame" by (simp add: edges_dilated_def c)
  show "width (edges_dilated cv frame) = width frame" by (simp add: edges_dilated_def c)
  show "binary (edges_dilated cv frame)" by (simp add: edges_dilated_def binary_dilate c)
qed

lemma cleaned_props:
  assumes "valid_image frame"
  shows "rect (cleaned cv frame)" "height (cleaned cv frame) = height frame"
    "width (cleaned cv frame) = width frame" "binary (cleaned cv frame)"
proof -
  from assms have "rect (to_gray cv frame)"
    using valid_image_to_gray[OF assms] by (simp add: valid_image_def)
  then have r: "rect (threshold_binary (to_gray cv frame) 100 255)" by (rule rect_threshold)
  show "rect (cleaned cv frame)" by (simp add: cleaned_def rect_morph)
  show "height (cleaned cv frame) = height frame" by (simp add: cleaned_def)
  show "width (cleaned cv frame) = width frame" by (simp add: cleaned_def)
  show "binary (cleaned cv frame)"
    by (simp add: cleaned_def binary_morph rect_morph binary_threshold r)
qed

lemma detect_wall_eq:
  assumes "valid_image frame" "canny_contract cv"
  shows "detect_wall cv frame =
           Inr (map2 (map2 (\<lambda>v w. v AND w)) (cleaned cv frame) (bitwise_not (edges_dilated cv frame)))"
proof -
  have "shape (cleaned cv frame) = replicate (height frame) (width frame)"
    using shape_rect[OF cleaned_props(1)[OF assms(1)]] by (simp add: cleaned_props(2,3)[OF assms(1)])
  moreover have "shape (bitwise_not (edges_dilated cv frame)) = replicate (height frame) (width frame)"
    using shape_rect[OF rect_bitwise_not[OF canny_props(1)[OF assms(2,1)]]]
    by (simp add: canny_props(2,3)[OF assms(2,1)])
  moreover from assms(1) have "height frame \<noteq> 0" "width frame \<noteq> 0"
    by (simp_all add: valid_image_def)
  ultimately show ?thesis
    by (simp add: detect_wall_def bitwise_and_def cleaned_def Let_def)
qed

lemma detect_wall_pixel:
  assumes "valid_image frame" "canny_contract cv" "detect_wall cv frame = Inr m"
    "y < height frame" "x < width frame"
  shows "m ! y ! x = cleaned cv frame ! y ! x AND NOT (edges_dilated cv frame ! y ! x)"
proof -
  note C = cleaned_props[OF assms(1), of cv]
  note E = canny_props[OF assms(2,1)]
  have ly: "y < length (cleaned cv frame)" "y < length (edges_dilated cv frame)"
    using assms(4) C(2) E(2) by (simp_all add: height_def)
  have lx: "x < length (cleaned cv frame ! y)" "x < length (edges_dilated cv frame ! y)"
    using rect_nth[OF C(1), of y] rect_nth[OF E(1), of y] assms(4,5) C(2,3) E(2,3) by simp_all
  from assms(3) have "m = map2 (map2 (\<lambda>v w. v AND w)) (cleaned cv frame) (bitwise_not (edges_dilated cv frame))"
    by (simp add: detect_wall_eq[OF assms(1,2)])
  with ly lx show ?thesis
    by (simp add: bitwise_not_def)
qed

lemma detect_wall_dims:
  assumes "valid_image frame" "canny_contract cv"
  shows "\<exists>m. detect_wall cv frame = Inr m \<and> height m = height frame \<and> width m = width frame \<and> rect m"
proof -
  note C = cleaned_props[OF assms(1), of cv]
  note E = canny_props[OF assms(2,1)]
  let ?m = "map2 (map2 (\<lambda>v w. v AND w)) (cleaned cv frame) (bitwise_not (edges_dilated cv frame))"
  have h: "height ?m = height frame"
    using C(2) E(2) by (simp add: height_def bitwise_not_def)
  have rows: "length (?m ! y) = width frame" if "y < height frame" for y
  proof -
    have "y < length (cleaned cv frame)" "y < length (edges_dilated cv frame)"
      using that C(2) E(2) by (simp_all add: height_def)
    then show ?thesis
      using rect_nth[OF C(1), of y] rect_nth[OF E(1), of y] that C(2,3) E(2,3)
      by (simp add: bitwise_not_def)
  qed
  from assms(1) have pos: "0 < height frame" by (simp add: valid_image_def)
  have w: "width ?m = width frame"
  proof -
    from pos h obtain r rs where m: "?m = r # rs"
      by (cases ?m) (simp_all add: height_def)
    from rows[OF pos] m have "length r = width frame" by simp
    with m show ?thesis by (simp add: width_def)
  qed
  have "rect ?m"
    unfolding rect_def w list_all_length using rows h by (simp add: height_def)
  with h w detect_wall_eq[OF assms] show ?thesis by simp
qed

lemma gradient_edges_dims [simp]:
  "height (gradient_edges g lo hi) = height g" "width (gradient_edges g lo hi) = width g"
  by (simp add: gradient_edges_def) (cases g; simp add: gradient_edges_def width_def)

lemma rect_gradient_edges: "rect g \<Longrightarrow> rect (gradient_edges g lo hi)"
  unfolding rect_def gradient_edges_dims by (simp add: gradient_edges_def list_all_iff)

lemma binary_gradient_edges: "binary (gradient_edges g lo hi)"
  by (auto simp: binary_def gradient_edges_def list_all_iff in_set_zip)

lemma canny_contract_plain: "canny_contract plain_cv"
  by (simp add: canny_contract_def plain_cv_def valid_image_def rect_gradient_edges
      binary_gradient_edges)

lemmas morph_eval = dilate_def erode_def neighbourhood_def window_def height_def width_def upt_rec

lemma gray_tiny: "to_gray plain_cv tiny = [[200, 10]]"
  by (simp add: to_gray_def plain_cv_def luma_def tiny_def)

lemma canny_tiny: "Canny plain_cv [[200, 10]] 50 150 = [[0, 255]]"
  by (simp add: plain_cv_def gradient_edges_def)

lemma dilate_tiny:
  "dilate [[0, 255]] 5 = [[255, 255]]" "dilate [[255, 0]] 5 = [[255, 255]]"
  "dilate [[255, 255]] 5 = [[255, 255]]"
  by (simp_all add: morph_eval)

lemma erode_tiny: "erode [[255, 255]] 5 = [[255, 255]]"
  by (simp add: morph_eval)

lemma edges_tiny: "edges_dilated plain_cv tiny = [[255, 255]]"
  by (simp add: edges_dilated_def gray_tiny canny_tiny dilate_tiny)

lemma detect_tiny: "detect_wall plain_cv tiny = Inr [[0, 0]]"
proof -
  have "height tiny \<noteq> 0" "width tiny \<noteq> 0" by (simp_all add: tiny_def height_def width_def)
  then show ?thesis
    by (simp add: detect_wall_def edges_tiny gray_tiny threshold_binary_def morph_close_def
        morph_open_def dilate_tiny erode_tiny bitwise_and_def bitwise_not_def shape_def)
qed

lemma gray_bright_dot: "to_gray plain_cv bright_dot = [[200]]"
  by (simp add: to_gray_def plain_cv_def luma_def bright_dot_def)

lemma canny_bright_dot: "Canny plain_cv [[200]] 50 150 = [[0]]"
  by (simp add: plain_cv_def gradient_edges_def)

lemma morph_dot:
  "dilate [[0]] 5 = [[0]]" "dilate [[255]] 5 = [[255]]" "erode [[255]] 5 = [[255]]"
  by (simp_all add: morph_eval)

lemma detect_bright_dot: "detect_wall plain_cv bright_dot = Inr [[255]]"
proof -
  have "height bright_dot \<noteq> 0" "width bright_dot \<noteq> 0"
    by (simp_all add: bright_dot_def height_def width_def)
  then show ?thesis
    by (simp add: detect_wall_def edges_dilated_def gray_bright_dot canny_bright_dot
        threshold_binary_def morph_close_def morph_open_def morph_dot bitwise_and_def
        bitwise_not_def shape_def)
qed

lemma valid_tiny: "valid_image tiny"
  by (simp add: valid_image_def rect_def height_def width_def tiny_def)

lemma valid_bright_dot: "valid_image bright_dot"
  by (simp add: valid_image_def rect_def height_def width_def bright_dot_def)

text \<open>
  Claim C3. For every valid frame, with an edge detector that keeps its contract, no
  pixel that is set (nonzero) in the dilated edge map computed inside \<open>detect_wall\<close> is
  set in the mask \<open>detect_wall\<close> returns.
\<close>

theorem detect_wall_edge_exclusion:
  assumes "valid_image frame" "canny_contract cv" "detect_wall cv frame = Inr m"
    "y < height frame" "x < width frame" "edges_dilated cv frame ! y ! x \<noteq> 0"
  shows "m ! y ! x = 0"
proof -
  note E = canny_props[OF assms(2,1)]
  have "y < length (edges_dilated cv frame)" using assms(4) E(2) by (simp add: height_def)
  moreover have "x < length (edges_dilated cv frame ! y)"
    using rect_nth[OF E(1), of y] assms(4,5) E(2,3) by simp
  ultimately have "edges_dilated cv frame ! y ! x = 0 \<or> edges_dilated cv frame ! y ! x = 255"
    using binary_nth[OF E(4)] by simp
  with assms(6) have "edges_dilated cv frame ! y ! x = 255" by simp
  then have "NOT (edges_dilated cv frame ! y ! x) = 0" by (simp only: not_255)
  then show ?thesis
    by (simp only: detect_wall_pixel[OF assms(1-5)] and.right_neutral bit.conj_zero_right)
qed

theorem detect_wall_edge_exclusion_witness:
  "valid_image tiny \<and> canny_contract plain_cv \<and> detect_wall plain_cv tiny = Inr [[0, 0]]
     \<and> edges_dilated plain_cv tiny ! 0 ! 1 \<noteq> 0 \<and> [[0, 0 :: 8 word]] ! 0 ! 1 = 0"
proof -
  have e: "edges_dilated plain_cv tiny ! 0 ! 1 \<noteq> 0" by (simp add: edges_tiny)
  have d: "0 < height tiny" "1 < width tiny" by (simp_all add: tiny_def height_def width_def)
  from detect_wall_edge_exclusion[OF valid_tiny canny_contract_plain detect_tiny d e]
  show ?thesis
    using valid_tiny canny_contract_plain detect_tiny e by simp
qed

lemma valid_wall_strip: "valid_image wall_strip"
  by (simp add: valid_image_def rect_def height_def width_def wall_strip_def)

lemma gray_wall_strip: "to_gray plain_cv wall_strip = [[200, 200, 200, 0]]"
  by (simp add: to_gray_def plain_cv_def luma_def wall_strip_def)

lemma canny_wall_strip: "Canny plain_cv [[200, 200, 200, 0]] 50 150 = [[0, 0, 0, 255]]"
  by (simp add: plain_cv_def gradient_edges_def)

lemma morph_wall_strip:
  "dilate [[0, 0, 0, 255]] 5 = [[0, 255, 255, 255]]"
  "dilate [[255, 255, 255, 0]] 5 = [[255, 255, 255, 255]]"
  "erode [[255, 255, 255, 255]] 5 = [[255, 255, 255, 255]]"
  "dilate [[255, 255, 255, 255]] 5 = [[255, 255, 255, 255]]"
  by (simp_all add: morph_eval)

lemma detect_wall_strip: "detect_wall plain_cv wall_strip = Inr [[255, 0, 0, 0]]"
proof -
  have "height wall_strip \<noteq> 0" "width wall_strip \<noteq> 0"
    by (simp_all add: wall_strip_def height_def width_def)
  then show ?thesis
    by (simp add: detect_wall_def edges_dilated_def gray_wall_strip canny_wall_strip
        threshold_binary_def morph_close_def morph_open_def morph_wall_strip bitwise_and_def
        bitwise_not_def shape_def)
qed

lemma gray_dark_dot: "to_gray plain_cv dark_dot = [[0]]"
  by (simp add: to_gray_def plain_cv_def luma_def dark_dot_def)

lemma canny_dark_dot: "Canny plain_cv [[0]] 50 150 = [[0]]"
  by (simp add: plain_cv_def gradient_edges_def)

lemma erode_dark_dot: "erode [[0]] 5 = [[0]]"
  by (simp add: morph_eval)

text \<open>
  Claim C4, as amended. For every valid frame, with an edge detector that keeps its
  contract, \<open>detect_wall\<close> returns a mask, and every element of the mask is one of the
  two values 0 ("not-surface") and 255 ("surface"): the mask holds no other value. It
  need not hold both: the mask of an all-dark frame holds only 0.
\<close>

theorem detect_wall_binary:
  assumes "valid_image frame" "canny_contract cv"
  shows "\<exists>m. detect_wall cv frame = Inr m \<and> binary m"
proof -
  from detect_wall_dims[OF assms] obtain m where m: "detect_wall cv frame = Inr m"
    "height m = height frame" "width m = width frame" "rect m" by blast
  note C = cleaned_props[OF assms(1), of cv]
  note E = canny_props[OF assms(2,1)]
  have "binary m"
  proof (rule binaryI)
    fix y x assume "y < length m" "x < length (m ! y)"
    then have y: "y < height frame" and x: "x < width frame"
      using m(2,3) rect_nth[OF m(4), of y] by (simp_all add: height_def)
    have "y < length (cleaned cv frame)" "x < length (cleaned cv frame ! y)"
      "y < length (edges_dilated cv frame)" "x < length (edges_dilated cv frame ! y)"
      using rect_nth[OF C(1), of y] rect_nth[OF E(1), of y] y x C(2,3) E(2,3)
      by (simp_all add: height_def)
    with binary_nth[OF C(4)] binary_nth[OF E(4)]
    have "cleaned cv frame ! y ! x = 0 \<or> cleaned cv frame ! y ! x = 255"
      "edges_dilated cv frame ! y ! x = 0 \<or> edges_dilated cv frame ! y ! x = 255"
      by simp_all
    then show "m ! y ! x = 0 \<or> m ! y ! x = 255"
      unfolding detect_wall_pixel[OF assms m(1) y x] by (auto simp: not_255)
  qed
  with m(1) show ?thesis by simp
qed

theorem detect_wall_binary_witness:
  "valid_image wall_strip \<and> canny_contract plain_cv
     \<and> detect_wall plain_cv wall_strip = Inr [[255, 0, 0, 0]] \<and> binary [[255, 0, 0, 0]]"
proof -
  from detect_wall_binary[OF valid_wall_strip canny_contract_plain]
  have "binary [[255, 0, 0, 0]]" by (simp add: detect_wall_strip)
  with valid_wall_strip canny_contract_plain detect_wall_strip show ?thesis by simp
qed

text \<open>
  The claim as stated fails: it says that the mask holds exactly two distinct values. The
  mask of an all-dark frame holds only 0, so it holds one value, not two.
\<close>

theorem detect_wall_dark_single_value:
  "valid_image dark_dot \<and> detect_wall plain_cv dark_dot = Inr [[0]]
     \<and> card (set (concat [[0 :: 8 word]])) \<noteq> 2"
proof -
  have "height dark_dot \<noteq> 0" "width dark_dot \<noteq> 0"
    by (simp_all add: dark_dot_def height_def width_def)
  then have "detect_wall plain_cv dark_dot = Inr [[0]]"
    by (simp add: detect_wall_def edges_dilated_def gray_dark_dot canny_dark_dot
        threshold_binary_def morph_close_def morph_open_def morph_dot erode_dark_dot
        bitwise_and_def bitwise_not_def shape_def)
  moreover have "valid_image dark_dot"
    by (simp add: valid_image_def rect_def height_def width_def dark_dot_def)
  ultimately show ?thesis by simp
qed

section \<open>Properties of the compositor\<close>

lemma shape_gt0 [simp]: "shape (gt0 msk) = shape msk"
  by (simp add: shape_def gt0_def comp_def)

lemma shape_zeros_like [simp]: "shape (zeros_like f) = shape f"
  by (simp add: shape_def zeros_like_def comp_def)

lemma shape_map2_map2:
  "shape a = shape b \<Longrightarrow> shape (map2 (map2 g) a b) = shape a"
proof (induction a arbitrary: b)
  case Nil
  then show ?case by (simp add: shape_def)
next
  case (Cons r rs)
  then show ?case by (cases b) (simp_all add: shape_def)
qed

lemma shape_nth:
  "shape a = shape b \<Longrightarrow> length a = length b \<and> (\<forall>y < length b. length (a ! y) = length (b ! y))"
  unfolding shape_def by (metis length_map nth_map)

lemma assign_row_map:
  "length r = length br \<Longrightarrow>
     assign_row r br (map f (select_row r br) @ rest) = (map2 (\<lambda>q b. if b then f q else q) r br, rest)"
  by (induction r br rule: list_induct2) simp_all

lemma assign_rows_map:
  "shape arr = shape bm \<Longrightarrow>
     assign_rows arr bm (map f (concat (map2 select_row arr bm)) @ rest)
       = map2 (map2 (\<lambda>q b. if b then f q else q)) arr bm"
proof (induction arr arbitrary: bm)
  case Nil
  then show ?case by simp
next
  case (Cons r rs)
  then obtain br bs where bm: "bm = br # bs" and l: "length r = length br"
    and sh: "shape rs = shape bs"
    by (cases bm) (simp_all add: shape_def)
  from Cons.IH[OF sh] l show ?case
    by (simp add: bm assign_row_map)
qed

lemma select_row_fill:
  "length r = length br \<Longrightarrow>
     select_row (map2 (\<lambda>q b. if b then p else q) r br) br = replicate (length (select_row r br)) p"
  by (induction r br rule: list_induct2) simp_all

lemma select_fill:
  "shape arr = shape bm \<Longrightarrow>
     concat (map2 select_row (map2 (map2 (\<lambda>q b. if b then p else q)) arr bm) bm)
       = replicate (length (concat (map2 select_row arr bm))) p"
proof (induction arr arbitrary: bm)
  case Nil
  then show ?case by simp
next
  case (Cons r rs)
  then obtain br bs where bm: "bm = br # bs" and l: "length r = length br"
    and sh: "shape rs = shape bs"
    by (cases bm) (simp_all add: shape_def)
  from Cons.IH[OF sh] l show ?case
    by (simp add: bm select_row_fill replicate_add)
qed

lemma length_select_row:
  "length r = length br \<Longrightarrow> length (select_row r br) = length (filter id br)"
  by (induction r br rule: list_induct2) simp_all

lemma length_select:
  "shape arr = shape bm \<Longrightarrow> length (concat (map2 select_row arr bm)) = count_true bm"
proof (induction arr arbitrary: bm)
  case Nil
  then show ?case by (simp add: count_true_def shape_def)
next
  case (Cons r rs)
  then obtain br bs where bm: "bm = br # bs" and l: "length r = length br"
    and sh: "shape rs = shape bs"
    by (cases bm) (simp_all add: shape_def)
  from Cons.IH[OF sh] l show ?case
    by (simp add: bm length_select_row count_true_def)
qed

lemma length_select_zeros:
  "shape f = shape bm \<Longrightarrow> length (concat (map2 select_row (zeros_like f) bm)) = count_true bm"
  by (rule length_select) simp

lemma map2_replicate: "map2 g xs (replicate (length xs) p) = map (\<lambda>a. g a p) xs"
  by (induction xs) simp_all

lemma count_true_pos:
  assumes "y < length msk" "x < length (msk ! y)" "0 < msk ! y ! x"
  shows "0 < count_true (gt0 msk)"
proof -
  have "True \<in> set (gt0 msk ! y)"
    using assms by (auto simp: gt0_def in_set_conv_nth intro!: exI[of _ x])
  moreover have "gt0 msk ! y \<in> set (gt0 msk)"
    using assms(1) by (simp add: gt0_def)
  ultimately have "True \<in> set (concat (gt0 msk))" by auto
  then have "filter id (concat (gt0 msk)) \<noteq> []"
    by (auto simp: filter_empty_conv)
  then show ?thesis by (simp add: count_true_def)
qed

lemma blended_nth:
  assumes "shape f = shape msk" "y < length msk" "x < length (msk ! y)"
  shows "blended f msk p alpha ! y ! x
           = (if 0 < msk ! y ! x then weighted_px (f ! y ! x) (1 - alpha) p alpha 0 else f ! y ! x)"
proof -
  from shape_nth[OF assms(1)] assms(2) have l: "length f = length msk"
    "length (f ! y) = length (msk ! y)" by simp_all
  with assms(2,3) show ?thesis
    by (simp add: blended_def gt0_def)
qed


lemma apply_color_overlay_eq:
  assumes "frame < next_free s" "shape (cells s frame) = shape msk" "pixel_of color = Inr p"
    "0 < count_true (gt0 msk)"
  shows "apply_color_overlay s frame msk color alpha =
           (Inr (Suc (next_free s)),
            s\<lparr>cells := (cells s)(next_free s := filled (cells s frame) msk p,
                                  Suc (next_free s) := blended (cells s frame) msk p alpha),
              next_free := Suc (Suc (next_free s))\<rparr>)"
proof -
  let ?f = "cells s frame" and ?bm = "gt0 msk"
  let ?sel = "concat (map2 select_row ?f ?bm)"
  from assms(1) have ne: "frame \<noteq> next_free s" "frame \<noteq> Suc (next_free s)" by simp_all
  have sh: "shape ?f = shape ?bm" "shape (zeros_like ?f) = shape ?bm"
    using assms(2) by simp_all
  have fill: "bool_fill (zeros_like ?f) ?bm color = Inr (filled ?f msk p)"
    by (simp add: bool_fill_def sh assms(3) filled_def)
  have shf: "shape (filled ?f msk p) = shape ?bm"
    unfolding filled_def using shape_map2_map2[OF sh(2)] sh(2) by simp
  have sel1: "bool_select ?f ?bm = Inr ?sel"
    by (simp add: bool_select_def sh)
  have len: "length ?sel = count_true ?bm"
    by (rule length_select[OF sh(1)])
  have sel2: "bool_select (filled ?f msk p) ?bm = Inr (replicate (length ?sel) p)"
    unfolding bool_select_def filled_def
    using shf select_fill[OF sh(2), of p] length_select_zeros[OF sh(1)] len
    by (simp add: filled_def)
  from len assms(4) have "0 < length ?sel" by simp
  then have nonempty: "?sel \<noteq> []" by (metis length_greater_0_conv)
  have aw: "addWeighted ?sel (1 - alpha) (replicate (length ?sel) p) alpha 0
              = Inr (Some (map (\<lambda>q. weighted_px q (1 - alpha) p alpha 0) ?sel))"
    using nonempty by (simp add: addWeighted_def map2_replicate)
  have asg: "bool_assign ?f ?bm (Some (map (\<lambda>q. weighted_px q (1 - alpha) p alpha 0) ?sel))
              = Inr (blended ?f msk p alpha)"
    using assign_rows_map[OF sh(1), of "\<lambda>q. weighted_px q (1 - alpha) p alpha 0" "[]"]
    by (simp add: bool_assign_def sh len blended_def)
  show ?thesis
    unfolding apply_color_overlay_def alloc_def write_buf_def
    by (simp add: ne fill sel1 sel2 aw asg fun_upd_twist)
qed

lemma apply_color_overlay_empty:
  assumes "frame < next_free s" "shape (cells s frame) = shape msk" "pixel_of color = Inr p"
    "count_true (gt0 msk) = 0"
  shows "fst (apply_color_overlay s frame msk color alpha) = Inl TypeError"
proof -
  let ?f = "cells s frame" and ?bm = "gt0 msk"
  let ?sel = "concat (map2 select_row ?f ?bm)"
  from assms(1) have ne: "frame \<noteq> next_free s" "frame \<noteq> Suc (next_free s)" by simp_all
  have sh2: "shape ?f = shape ?bm" "shape (zeros_like ?f) = shape ?bm" using assms(2) by simp_all
  have fill: "bool_fill (zeros_like ?f) ?bm color = Inr (filled ?f msk p)"
    by (simp add: bool_fill_def sh2 assms(3) filled_def)
  have shf: "shape (filled ?f msk p) = shape ?bm"
    unfolding filled_def using shape_map2_map2[OF sh2(2)] sh2(2) by simp
  have e1: "?sel = []" using length_select[OF sh2(1)] assms(4) by simp
  have e2: "concat (map2 select_row (filled ?f msk p) ?bm) = []"
    using length_select[of "filled ?f msk p" ?bm] shf assms(4) by simp
  show ?thesis
    unfolding apply_color_overlay_def alloc_def write_buf_def
    by (simp add: ne fill bool_select_def sh2 shf e1 e2 addWeighted_def bool_assign_def)
qed





lemma cvRound_floor: "\<lfloor>x\<rfloor> \<le> cvRound x \<and> cvRound x \<le> \<lfloor>x\<rfloor> + 1"
  by (simp add: cvRound_def Let_def)

lemma cvRound_round: "\<bar>cvRound x - round x\<bar> \<le> 1"
proof -
  have "\<lfloor>x\<rfloor> \<le> round x" "round x \<le> \<lfloor>x\<rfloor> + 1"
    unfolding round_def by linarith+
  with cvRound_floor[of x] show ?thesis by linarith
qed

lemma cvRound_range:
  assumes "0 \<le> x" "x \<le> 255"
  shows "0 \<le> cvRound x" "cvRound x \<le> 255"
proof -
  from assms(1) have "0 \<le> \<lfloor>x\<rfloor>" by simp
  with cvRound_floor[of x] show "0 \<le> cvRound x" by linarith
  show "cvRound x \<le> 255"
  proof (cases "x - of_int \<lfloor>x\<rfloor> < 1 / 2")
    case True
    then have "cvRound x = \<lfloor>x\<rfloor>" by (simp add: cvRound_def Let_def)
    moreover from assms(2) have "\<lfloor>x\<rfloor> \<le> 255" by linarith
    ultimately show ?thesis by simp
  next
    case False
    then have "of_int \<lfloor>x\<rfloor> + 1 / 2 \<le> x" by simp
    with assms(2) have "real_of_int \<lfloor>x\<rfloor> < 255" by linarith
    then have "\<lfloor>x\<rfloor> < 255" by linarith
    with cvRound_floor[of x] show ?thesis by linarith
  qed
qed

lemma unat_u8_le: "real (unat (v :: 8 word)) \<le> 255"
proof -
  have "unat v < 2 ^ LENGTH(8)" by (rule unsigned_less)
  then have "unat v \<le> 255" by simp
  then have "real (unat v) \<le> real 255" by (rule of_nat_mono)
  then show ?thesis by (simp only: of_nat_numeral)
qed

lemma unat_word_of_int_u8:
  "0 \<le> c \<Longrightarrow> c \<le> 255 \<Longrightarrow> unat (word_of_int c :: 8 word) = nat c"
  by (simp add: unat_eq_nat_uint uint_word_of_int)

lemma convex_range:
  fixes a b t :: real
  assumes "0 \<le> t" "t \<le> 1" "0 \<le> a" "a \<le> 255" "0 \<le> b" "b \<le> 255"
  shows "0 \<le> a * (1 - t) + b * t" "a * (1 - t) + b * t \<le> 255"
proof -
  show "0 \<le> a * (1 - t) + b * t" using assms by simp
  have "a * (1 - t) \<le> 255 * (1 - t)"
    using assms by (intro mult_right_mono) simp_all
  moreover have "b * t \<le> 255 * t"
    using assms by (intro mult_right_mono) simp_all
  moreover have "255 * (1 - t) + 255 * t = 255"
    by (simp add: algebra_simps)
  ultimately show "a * (1 - t) + b * t \<le> 255" by linarith
qed

lemma weighted_within1:
  assumes "0 \<le> alpha" "alpha \<le> 1" "0 \<le> c" "c \<le> 255"
  shows "within1 (weighted v (1 - alpha) (word_of_int c) alpha 0)
           ((1 - alpha) * real (unat v) + alpha * real_of_int c)"
proof -
  let ?t = "real (unat v) * (1 - alpha) + real_of_int c * alpha"
  have u: "real (unat (word_of_int c :: 8 word)) = real_of_int c"
    using assms(3,4) by (simp add: unat_word_of_int_u8)
  then have u': "(unsigned (word_of_int c :: 8 word) :: real) = real_of_int c"
    by simp
  have cr: "0 \<le> real_of_int c" "real_of_int c \<le> 255"
    using assms(3,4) by simp_all
  have vr: "0 \<le> real (unat v)" by (rule of_nat_0_le_iff)
  note r = convex_range[OF assms(1,2) vr unat_u8_le cr]
  note R = cvRound_range[OF r]
  have "weighted v (1 - alpha) (word_of_int c) alpha 0 = word_of_int (cvRound ?t)"
    using R by (simp add: weighted_def saturate_u8_def u')
  moreover have "unat (word_of_int (cvRound ?t) :: 8 word) = nat (cvRound ?t)"
    using R by (rule unat_word_of_int_u8)
  ultimately show ?thesis
    using cvRound_round[of ?t] R by (simp add: within1_def mult.commute)
qed

lemma pixel_of_valid:
  assumes "valid_color (c0, c1, c2)"
  shows "pixel_of (c0, c1, c2) = Inr (word_of_int c0, word_of_int c1, word_of_int c2)"
  using assms by (simp add: valid_color_def pixel_of_def to_u8_def)

lemma pixel_of_isl: "isl (pixel_of c) \<longleftrightarrow> \<not> valid_color c"
  by (cases c) (auto simp: valid_color_def pixel_of_def to_u8_def)

lemma overlay_result:
  assumes "frame < next_free s" "shape (cells s frame) = shape msk" "pixel_of color = Inr p"
    "0 < count_true (gt0 msk)"
  shows "fst (apply_color_overlay s frame msk color alpha) = Inr (Suc (next_free s))"
    "cells (snd (apply_color_overlay s frame msk color alpha)) (Suc (next_free s))
       = blended (cells s frame) msk p alpha"
  by (simp_all add: apply_color_overlay_eq[OF assms])

lemma store0_simps [simp]: "cells (store0 f) 0 = f" "next_free (store0 f) = 1"
  by (simp_all add: store0_def)

lemma blended_two_pixels:
  "blended two_pixels [[255, 0]] (200, 100, 100) (1 / 2) = [[(150, 75, 50), (7, 8, 9)]]"
  by (simp add: blended_def gt0_def two_pixels_def weighted_px_def weighted_def saturate_u8_def
      cvRound_def)


lemma pixel_of_examples:
  "pixel_of (200, 100, 100) = Inr (200, 100, 100)" "pixel_of (120, 120, 120) = Inr (120, 120, 120)"
  "pixel_of (255, 255, 255) = Inr (255, 255, 255)"
  by (simp_all add: pixel_of_def to_u8_def)

lemma count_true_examples:
  "count_true (gt0 [[255, 0]]) = 1" "count_true (gt0 [[255]]) = 1" "count_true (gt0 [[0]]) = 0"
  by (simp_all add: count_true_def gt0_def)

lemma shape_examples:
  "shape two_pixels = [2]" "shape grey_dot = [1]" "shape [[a :: 8 word, b]] = [2]"
  "shape [[a :: 8 word]] = [1]"
  by (simp_all add: shape_def two_pixels_def grey_dot_def)

lemma next_store0: "Suc (next_free (store0 f)) = 2"
  by simp

text \<open>
  Claim C1. For every frame, every mask of the frame's size, every colour with channels in
  0..255 and every \<open>alpha\<close> in \<open>[0, 1]\<close>, \<open>apply_color_overlay\<close> returns when the mask has a
  set pixel, and at every pixel where the mask is set each channel of the result, an 8-bit
  integer, is within 1 of \<open>round ((1 - alpha) * original + alpha * color)\<close>.
\<close>

theorem overlay_blend:
  assumes "frame < next_free s" "shape (cells s frame) = shape msk" "valid_color color"
    "0 \<le> alpha" "alpha \<le> 1" "y < length msk" "x < length (msk ! y)" "0 < msk ! y ! x"
  shows "\<exists>r s'. apply_color_overlay s frame msk color alpha = (Inr r, s') \<and>
           blend_ok (cells s' r ! y ! x) (cells s frame ! y ! x) color alpha"
proof -
  obtain c0 c1 c2 where c: "color = (c0, c1, c2)" by (cases color)
  from assms(3) have v: "0 \<le> c0" "c0 \<le> 255" "0 \<le> c1" "c1 \<le> 255" "0 \<le> c2" "c2 \<le> 255"
    by (simp_all add: c valid_color_def)
  let ?p = "(word_of_int c0 :: 8 word, word_of_int c1 :: 8 word, word_of_int c2 :: 8 word)"
  have p: "pixel_of color = Inr ?p"
    using assms(3) unfolding c by (rule pixel_of_valid)
  have n: "0 < count_true (gt0 msk)"
    by (rule count_true_pos[OF assms(6-8)])
  obtain o0 o1 o2 where o: "cells s frame ! y ! x = (o0, o1, o2)"
    by (cases "cells s frame ! y ! x")
  have b: "blended (cells s frame) msk ?p alpha ! y ! x
             = weighted_px (o0, o1, o2) (1 - alpha) ?p alpha 0"
    using assms(8) by (simp add: blended_nth[OF assms(2,6,7)] o)
  have "blend_ok (weighted_px (o0, o1, o2) (1 - alpha) ?p alpha 0) (o0, o1, o2) (c0, c1, c2) alpha"
    unfolding blend_ok_def weighted_px_def prod.case
    by (intro conjI weighted_within1 assms(4,5) v)
  then have "blend_ok (blended (cells s frame) msk ?p alpha ! y ! x) (cells s frame ! y ! x)
      color alpha"
    by (simp only: b o c)
  then have "blend_ok (cells (snd (apply_color_overlay s frame msk color alpha))
      (Suc (next_free s)) ! y ! x) (cells s frame ! y ! x) color alpha"
    by (simp only: overlay_result(2)[OF assms(1,2) p n])
  moreover have "apply_color_overlay s frame msk color alpha
      = (Inr (Suc (next_free s)), snd (apply_color_overlay s frame msk color alpha))"
    using overlay_result(1)[OF assms(1,2) p n, of alpha] by (simp add: prod_eq_iff)
  ultimately show ?thesis by metis
qed

theorem overlay_blend_witness:
  "0 < next_free (store0 two_pixels) \<and> shape (cells (store0 two_pixels) 0) = shape [[255 :: 8 word, 0]]
     \<and> valid_color (200, 100, 100) \<and> (0 :: real) \<le> 1 / 2 \<and> (1 / 2 :: real) \<le> 1
     \<and> [[255 :: 8 word, 0]] ! 0 ! 0 > 0
     \<and> fst (apply_color_overlay (store0 two_pixels) 0 [[255, 0]] (200, 100, 100) (1 / 2)) = Inr 2
     \<and> cells (snd (apply_color_overlay (store0 two_pixels) 0 [[255, 0]] (200, 100, 100) (1 / 2))) 2
           = [[(150, 75, 50), (7, 8, 9)]]
     \<and> blend_ok (150, 75, 50) (100, 50, 0) (200, 100, 100) (1 / 2)"
proof -
  have h: "0 < next_free (store0 two_pixels)"
    "shape (cells (store0 two_pixels) 0) = shape [[255 :: 8 word, 0]]"
    "valid_color (200, 100, 100)" "(0 :: real) \<le> 1 / 2" "(1 / 2 :: real) \<le> 1"
    "0 < length [[255 :: 8 word, 0]]" "0 < length ([[255 :: 8 word, 0]] ! 0)"
    "0 < [[255 :: 8 word, 0]] ! 0 ! 0"
    by (simp_all add: shape_examples valid_color_def)
  have n: "0 < count_true (gt0 [[255, 0]])" by (simp add: count_true_examples)
  note R = overlay_result[OF h(1,2) pixel_of_examples(1) n, of "1 / 2", unfolded next_store0]
  from overlay_blend[OF h] obtain r s' where
    a: "apply_color_overlay (store0 two_pixels) 0 [[255, 0]] (200, 100, 100) (1 / 2) = (Inr r, s')"
    and b: "blend_ok (cells s' r ! 0 ! 0) (cells (store0 two_pixels) 0 ! 0 ! 0) (200, 100, 100) (1 / 2)"
    by blast
  from a R have "r = 2" "cells s' 2 = [[(150, 75, 50), (7, 8, 9)]]"
    by (simp_all add: blended_two_pixels)
  with b have "blend_ok (150, 75, 50) (100, 50, 0) (200, 100, 100) (1 / 2)"
    by (simp add: two_pixels_def)
  with h R show ?thesis
    by (simp add: blended_two_pixels)
qed






text \<open>
  Claim C8 says that \<open>apply_color_overlay\<close> and \<open>process_frame\<close> return a frame of the
  input's size for every valid frame. The segmenter does keep the size (lemma
  \<open>detect_wall_dims\<close>), and so does a call of the compositor that returns. But the
  compositor does not return for a mask without a set pixel, the mask of a dark frame: the
  selection \<^verbatim>\<open>frame[mask > 0]\<close> is empty, \<^verbatim>\<open>cv2.addWeighted\<close> gives \<^verbatim>\<open>None\<close> for it, and
  the assignment of \<^verbatim>\<open>None\<close> to \<^verbatim>\<open>result[mask > 0]\<close> raises \<^verbatim>\<open>TypeError\<close>. This holds
  for every frame, every mask of its size without a set pixel, every valid colour and every
  \<open>alpha\<close>.
\<close>

theorem overlay_empty_mask_raises:
  assumes "frame < next_free s" "shape (cells s frame) = shape msk" "valid_color color"
    "count_true (gt0 msk) = 0"
  shows "fst (apply_color_overlay s frame msk color alpha) = Inl TypeError"
proof -
  from assms(3) obtain p where p: "pixel_of color = Inr p"
    using pixel_of_isl[of color] by (cases "pixel_of color") simp_all
  show ?thesis by (rule apply_color_overlay_empty[OF assms(1,2) p assms(4)])
qed

theorem overlay_empty_mask_raises_witness:
  "0 < next_free (store0 grey_dot) \<and> shape (cells (store0 grey_dot) 0) = shape [[0 :: 8 word]]
     \<and> valid_color (255, 255, 255) \<and> count_true (gt0 [[0]]) = 0
     \<and> fst (apply_color_overlay (store0 grey_dot) 0 [[0]] (255, 255, 255) (7 / 10)) = Inl TypeError"
proof -
  have h: "0 < next_free (store0 grey_dot)" "shape (cells (store0 grey_dot) 0) = shape [[0 :: 8 word]]"
    "valid_color (255, 255, 255)" "count_true (gt0 [[0]]) = 0"
    by (simp_all add: shape_examples count_true_examples valid_color_def)
  from overlay_empty_mask_raises[OF h, of "7 / 10"] h show ?thesis by simp
qed

section \<open>The all-black frame\<close>

lemma black4_eq:
  "black4 = [[(0,0,0), (0,0,0), (0,0,0), (0,0,0)], [(0,0,0), (0,0,0), (0,0,0), (0,0,0)],
             [(0,0,0), (0,0,0), (0,0,0), (0,0,0)], [(0,0,0), (0,0,0), (0,0,0), (0,0,0)]]"
  by (simp add: black4_def eval_nat_numeral)

lemma valid_black4: "valid_image black4"
  by (simp add: black4_eq valid_image_def rect_def height_def width_def)

lemma dims_black4: "height black4 = 4" "width black4 = 4"
  by (simp_all add: black4_eq height_def width_def)

lemma morph_zero4:
  "dilate [[0, 0, 0, 0], [0, 0, 0, 0], [0, 0, 0, 0], [0, 0, 0, 0]] 5
     = [[0, 0, 0, 0], [0, 0, 0, 0], [0, 0, 0, 0], [0, 0, 0, 0]]"
  "erode [[0, 0, 0, 0], [0, 0, 0, 0], [0, 0, 0, 0], [0, 0, 0, 0]] 5
     = [[0, 0, 0, 0], [0, 0, 0, 0], [0, 0, 0, 0], [0, 0, 0, 0]]"
  by (simp_all add: morph_eval)

lemma cleaned_black4:
  assumes "cvtColor_gray cv (0, 0, 0) \<le> 100"
  shows "cleaned cv black4 = [[0, 0, 0, 0], [0, 0, 0, 0], [0, 0, 0, 0], [0, 0, 0, 0]]"
proof -
  from assms have "\<not> 100 < cvtColor_gray cv (0, 0, 0)" by simp
  then have "threshold_binary (to_gray cv black4) 100 255
               = [[0, 0, 0, 0], [0, 0, 0, 0], [0, 0, 0, 0], [0, 0, 0, 0]]"
    by (simp add: black4_eq to_gray_def threshold_binary_def)
  then show ?thesis
    by (simp add: cleaned_def morph_close_def morph_open_def morph_zero4)
qed

lemma const_image:
  assumes "rect m" "height m = h" "width m = w" "\<And>y x. y < h \<Longrightarrow> x < w \<Longrightarrow> m ! y ! x = v"
  shows "m = replicate h (replicate w v)"
proof (rule nth_equalityI)
  show "length m = length (replicate h (replicate w v))"
    using assms(2) by (simp add: height_def)
next
  fix y assume "y < length m"
  then have y: "y < h" using assms(2) by (simp add: height_def)
  then have l: "length (m ! y) = w" using rect_nth[OF assms(1), of y] assms(2,3) by simp
  have "m ! y = replicate w v"
    by (rule nth_equalityI) (simp_all add: l assms(4)[OF y])
  with y show "m ! y = replicate h (replicate w v) ! y" by simp
qed

lemma detect_wall_black4:
  assumes "canny_contract cv" "cvtColor_gray cv (0, 0, 0) \<le> 100"
  shows "detect_wall cv black4 = Inr (replicate 4 (replicate 4 0))"
proof -
  from detect_wall_dims[OF valid_black4 assms(1)] obtain m where
    m: "detect_wall cv black4 = Inr m" "height m = 4" "width m = 4" "rect m"
    by (auto simp: dims_black4)
  have "m ! y ! x = 0" if "y < 4" "x < 4" for y x
  proof -
    from that have d: "y < height black4" "x < width black4" by (simp_all add: dims_black4)
    from that have "[[0, 0, 0, 0], [0, 0, 0, 0], [0, 0, 0, 0], [0, 0, 0, 0 :: 8 word]] ! y ! x = 0"
      by (auto simp: less_Suc_eq eval_nat_numeral)
    then have "cleaned cv black4 ! y ! x = 0"
      by (simp only: cleaned_black4[OF assms(2)])
    then show ?thesis
      by (simp only: detect_wall_pixel[OF valid_black4 assms(1) m(1) d] bit.conj_zero_left)
  qed
  with m(2-4) have "m = replicate 4 (replicate 4 0)"
    by (intro const_image) simp_all
  with m(1) show ?thesis by simp
qed

lemma count_true_zeros: "count_true (gt0 (replicate h (replicate w 0))) = 0"
  by (simp add: count_true_def gt0_def filter_empty_conv)

lemma process_frame_empty:
  assumes "detect_wall cv (cells s frame) = Inr m" "frame < next_free s"
    "shape (cells s frame) = shape m" "valid_color (selected_color self)"
    "count_true (gt0 m) = 0"
  shows "fst (process_frame cv self s frame) = Inl TypeError"
proof -
  from assms(4) obtain p where p: "pixel_of (selected_color self) = Inr p"
    using pixel_of_isl[of "selected_color self"] by (cases "pixel_of (selected_color self)") simp_all
  have "fst (apply_color_overlay s frame m (selected_color self) (7 / 10)) = Inl TypeError"
    by (rule apply_color_overlay_empty[OF assms(2,3) p assms(5)])
  then obtain s1 where
    "apply_color_overlay s frame m (selected_color self) (7 / 10) = (Inl TypeError, s1)"
    by (cases "apply_color_overlay s frame m (selected_color self) (7 / 10)") simp
  then show ?thesis
    by (simp add: process_frame_def assms(1))
qed

text \<open>
  Claim C9 says that \<open>process_frame\<close> returns the all-black frame of four rows and four
  columns as it is. The first half of the claim holds: with an edge detector that keeps
  its contract and a grey conversion that sends black to a value of at most 100 (OpenCV
  sends it to 0), \<open>detect_wall\<close> returns the all-zero mask. The second half does not: on
  this mask the compositor raises \<^verbatim>\<open>TypeError\<close>, and so does \<open>process_frame\<close>, for every
  valid selected colour.
\<close>

theorem process_frame_black:
  assumes "canny_contract cv" "cvtColor_gray cv (0, 0, 0) \<le> 100"
    "valid_color (selected_color self)"
  shows "detect_wall cv black4 = Inr (replicate 4 (replicate 4 0)) \<and>
         fst (process_frame cv self (store0 black4) 0) = Inl TypeError"
proof -
  note d = detect_wall_black4[OF assms(1,2)]
  have sh: "shape black4 = shape (replicate 4 (replicate 4 (0 :: 8 word)))"
    by (simp add: shape_def black4_def)
  have "fst (process_frame cv self (store0 black4) 0) = Inl TypeError"
    by (rule process_frame_empty[where m = "replicate 4 (replicate 4 0)"])
      (simp_all add: d sh assms(3) count_true_zeros)
  with d show ?thesis by simp
qed

theorem process_frame_black_witness:
  "canny_contract plain_cv \<and> cvtColor_gray plain_cv (0, 0, 0) \<le> 100
     \<and> valid_color (selected_color init)
     \<and> detect_wall plain_cv black4 = Inr (replicate 4 (replicate 4 0))
     \<and> fst (process_frame plain_cv init (store0 black4) 0) = Inl TypeError"
proof -
  have g: "cvtColor_gray plain_cv (0, 0, 0) \<le> 100"
    by (simp add: plain_cv_def luma_def)
  have v: "valid_color (selected_color init)"
    by (simp add: init_def valid_color_def)
  from process_frame_black[OF canny_contract_plain g v] canny_contract_plain g v
  show ?thesis by simp
qed

end
